theory Spec2Isabelle
  imports Main "HOL-Library.Word"
begin

unbundle bit_operations_syntax

section \<open>The 1-wire bit transceiver of onewire.c\<close>

text \<open>
  The driver talks to the hardware through memory-mapped 8-bit registers and shares the
  structure \<open>onewire0\<close> with the timer interrupt. The model keeps every register the
  code writes as a field of one record, and the shared structure as a record of its own.
  A register holds the value the program wrote last; the counting of the timer itself is
  real time and is not part of the model.
\<close>

subsection \<open>Constants\<close>

text \<open>
  Bit numbers of the ATtiny85 registers. The source takes them from the device header
  \<open>avr/io.h\<close> of the C library, which is not a file of the repository; the values are
  the ones of the ATtiny85 data sheet. No property below depends on which bit is which.
\<close>

definition PORTB0 :: nat where "PORTB0 = 0"
definition CS00 :: nat where "CS00 = 0"
definition CS01 :: nat where "CS01 = 1"
definition WGM01 :: nat where "WGM01 = 1"
definition OCIE0A :: nat where "OCIE0A = 4"
definition OCF0A :: nat where "OCF0A = 4"

text \<open>
  \<^verbatim>\<open>#define PIN ( 1 << PORTB0 )\<close>, \<^verbatim>\<open>#define PRESCALER ( 1<<CS01 )\<close> and
  \<^verbatim>\<open>#define RESET_PRESCALER ( 1<<CS01 | 1<<CS00)\<close>; no routine uses the last one.
\<close>

definition PIN :: "8 word" where "PIN = push_bit PORTB0 1"
definition PRESCALER :: "8 word" where "PRESCALER = push_bit CS01 1"
definition RESET_PRESCALER :: "8 word" where "RESET_PRESCALER = push_bit CS01 1 OR push_bit CS00 1"

text \<open>The signal timing table, \<^verbatim>\<open>GAP_A\<close> to \<^verbatim>\<open>GAP_J\<close>.\<close>

definition GAP_A :: "8 word" where "GAP_A = 6"
definition GAP_B :: "8 word" where "GAP_B = 64"
definition GAP_C :: "8 word" where "GAP_C = 60"
definition GAP_D :: "8 word" where "GAP_D = 10"
definition GAP_E :: "8 word" where "GAP_E = 9"
definition GAP_F :: "8 word" where "GAP_F = 55"
definition GAP_G :: "8 word" where "GAP_G = 0"
definition GAP_H :: "8 word" where "GAP_H = 60"
definition GAP_I :: "8 word" where "GAP_I = 9"
definition GAP_J :: "8 word" where "GAP_J = 51"

subsection \<open>Data\<close>

text \<open>\<^verbatim>\<open>enum onewire0_state\<close>, in the order of the source.\<close>

datatype onewire0_state =
    OW0_IDLE
  | OW0_WRITE0_LOW
  | OW0_WRITE0_RELEASE
  | OW0_WRITE1_LOW
  | OW0_WRITE1_RELEASE
  | OW0_READ_LOW
  | OW0_READ_SAMPLE
  | OW0_READ_RELEASE

text \<open>
  \<^verbatim>\<open>struct onewire\<close>. The field \<^verbatim>\<open>bit\<close> is called \<open>bit_ow\<close> here, since \<open>bit\<close> is
  the bit test of the library. The field \<^verbatim>\<open>state\<close> is a byte in the source that only
  ever receives values of the enumeration.
\<close>

record onewire =
  state :: onewire0_state
  bit_ow :: "8 word"

text \<open>The global \<^verbatim>\<open>onewire0\<close> and the registers written by the driver.\<close>

record mcu =
  onewire0 :: onewire
  DDRB :: "8 word"
  PORTB :: "8 word"
  TCCR0A :: "8 word"
  TCCR0B :: "8 word"
  TCNT0 :: "8 word"
  OCR0A :: "8 word"
  OCR0B :: "8 word"
  TIMSK :: "8 word"
  TIFR :: "8 word"

subsection \<open>Initialisation, timer start and pin primitives\<close>

definition onewire0_init :: "mcu \<Rightarrow> mcu" where
  "onewire0_init s =
     (let s1 = s\<lparr>onewire0 := (onewire0 s)\<lparr>state := OW0_IDLE\<rparr>\<rparr>;
          s2 = s1\<lparr>DDRB := DDRB s1 AND NOT PIN\<rparr>;
          s3 = s2\<lparr>PORTB := PORTB s2 AND NOT PIN\<rparr>;
          s4 = s3\<lparr>TCCR0A := TCCR0A s3 OR push_bit WGM01 1\<rparr>;
          s5 = s4\<lparr>TCCR0B := TCCR0B s4 AND NOT PRESCALER\<rparr>;
          s6 = s5\<lparr>OCR0B := 0xff\<rparr>
      in s6\<lparr>TIMSK := TIMSK s6 OR push_bit OCIE0A 1\<rparr>)"

definition starttimer :: "mcu \<Rightarrow> mcu" where
  "starttimer s =
     (let s1 = s\<lparr>TIFR := TIFR s OR push_bit OCF0A 1\<rparr>;
          s2 = s1\<lparr>TCNT0 := 0\<rparr>
      in s2\<lparr>TCCR0B := TCCR0B s2 OR PRESCALER\<rparr>)"

definition release :: "mcu \<Rightarrow> mcu" where
  "release s = s\<lparr>DDRB := DDRB s AND NOT PIN\<rparr>"

definition pulllow :: "mcu \<Rightarrow> mcu" where
  "pulllow s = s\<lparr>DDRB := DDRB s OR PIN\<rparr>"

subsection \<open>The interrupt routine\<close>

text \<open>
  \<^verbatim>\<open>ISR(TIMER0_COMPA_vect)\<close>. The input register \<^verbatim>\<open>PINB\<close> is driven by the outside
  world, so the value read from it is an argument of the handler.
\<close>

definition ISR :: "8 word \<Rightarrow> mcu \<Rightarrow> mcu" where
  "ISR pinb s =
     (case state (onewire0 s) of
        OW0_IDLE \<Rightarrow> s
      | OW0_WRITE0_LOW \<Rightarrow>
          (let s1 = release s; s2 = s1\<lparr>OCR0A := GAP_D\<rparr>
           in s2\<lparr>onewire0 := (onewire0 s2)\<lparr>state := OW0_WRITE0_RELEASE\<rparr>\<rparr>)
      | OW0_WRITE0_RELEASE \<Rightarrow> s\<lparr>onewire0 := (onewire0 s)\<lparr>state := OW0_IDLE\<rparr>\<rparr>
      | OW0_WRITE1_LOW \<Rightarrow>
          (let s1 = release s; s2 = s1\<lparr>OCR0A := GAP_B\<rparr>
           in s2\<lparr>onewire0 := (onewire0 s2)\<lparr>state := OW0_WRITE1_RELEASE\<rparr>\<rparr>)
      | OW0_WRITE1_RELEASE \<Rightarrow> s\<lparr>onewire0 := (onewire0 s)\<lparr>state := OW0_IDLE\<rparr>\<rparr>
      | OW0_READ_LOW \<Rightarrow>
          (let s1 = release s; s2 = s1\<lparr>OCR0A := GAP_E\<rparr>
           in s2\<lparr>onewire0 := (onewire0 s2)\<lparr>state := OW0_READ_SAMPLE\<rparr>\<rparr>)
      | OW0_READ_SAMPLE \<Rightarrow>
          (let s1 = s\<lparr>onewire0 := (onewire0 s)\<lparr>bit_ow := (if pinb AND PIN \<noteq> 0 then 1 else 0)\<rparr>\<rparr>;
               s2 = s1\<lparr>OCR0A := GAP_F\<rparr>
           in s2\<lparr>onewire0 := (onewire0 s2)\<lparr>state := OW0_READ_RELEASE\<rparr>\<rparr>)
      | OW0_READ_RELEASE \<Rightarrow> s\<lparr>onewire0 := (onewire0 s)\<lparr>state := OW0_IDLE\<rparr>\<rparr>)"

subsection \<open>The busy-wait\<close>

text \<open>
  \<^verbatim>\<open>while (onewire0.state != OW0_IDLE) { };\<close> spins until the interrupt routine has
  put the state back to idle. The interrupts that arrive while the loop spins are the
  second argument: one entry for each compare match, holding the value that \<^verbatim>\<open>PINB\<close>
  shows at that moment. The loop returns the interrupts it did not consume. When the state
  is not idle and no further interrupt arrives, the loop spins for ever: the result is
  \<open>None\<close>. A compare match is taken to arrive only while the program waits: the counter
  has just been reset when a slot is armed, and the handler does nothing in the idle state.
\<close>

fun busy_wait :: "mcu \<Rightarrow> 8 word list \<Rightarrow> (mcu \<times> 8 word list) option" where
  "busy_wait s [] = (if state (onewire0 s) \<noteq> OW0_IDLE then None else Some (s, []))"
| "busy_wait s (pinb # irqs) =
     (if state (onewire0 s) \<noteq> OW0_IDLE then busy_wait (ISR pinb s) irqs
      else Some (s, pinb # irqs))"

subsection \<open>Bit primitives\<close>

text \<open>
  \<^verbatim>\<open>_writebit\<close> and \<^verbatim>\<open>_readbit\<close> (an identifier cannot start with an underscore
  here). Each routine is its straight-line part, which arms the slot, followed by the
  busy-wait; the straight-line part has a name of its own so that the state in which the
  wait begins can be talked about.
\<close>

definition writebit_arm :: "8 word \<Rightarrow> mcu \<Rightarrow> mcu" where
  "writebit_arm val s =
     (let s1 = s\<lparr>TCNT0 := 0\<rparr>
      in if val \<noteq> 0
         then (let t1 = s1\<lparr>OCR0A := GAP_A\<rparr>;
                   t2 = t1\<lparr>onewire0 := (onewire0 t1)\<lparr>state := OW0_WRITE1_LOW\<rparr>\<rparr>
               in pulllow t2)
         else (let t1 = s1\<lparr>OCR0A := GAP_C\<rparr>;
                   t2 = t1\<lparr>onewire0 := (onewire0 t1)\<lparr>state := OW0_WRITE0_LOW\<rparr>\<rparr>
               in pulllow t2))"

definition writebit :: "8 word \<Rightarrow> mcu \<Rightarrow> 8 word list \<Rightarrow> (mcu \<times> 8 word list) option" where
  "writebit val s irqs = busy_wait (writebit_arm val s) irqs"

definition readbit_arm :: "mcu \<Rightarrow> mcu" where
  "readbit_arm s =
     (let s1 = s\<lparr>TCNT0 := 0\<rparr>;
          s2 = s1\<lparr>OCR0A := GAP_A\<rparr>;
          s3 = s2\<lparr>onewire0 := (onewire0 s2)\<lparr>state := OW0_READ_LOW\<rparr>\<rparr>
      in pulllow s3)"

definition readbit :: "mcu \<Rightarrow> 8 word list \<Rightarrow> (8 word \<times> mcu \<times> 8 word list) option" where
  "readbit s irqs =
     (case busy_wait (readbit_arm s) irqs of
        None \<Rightarrow> None
      | Some (s', irqs') \<Rightarrow> Some (bit_ow (onewire0 s'), s', irqs'))"

subsection \<open>Byte routines\<close>

text \<open>
  The \<^verbatim>\<open>for (bit = 0; bit < 8; bit++)\<close> loops, with the loop counter as the byte it
  is in the source.
\<close>

function writebyte_loop ::
  "8 word \<Rightarrow> 8 word \<Rightarrow> mcu \<Rightarrow> 8 word list \<Rightarrow> (mcu \<times> 8 word list) option" where
  "writebyte_loop i byte s irqs =
     (if i < 8
      then (case writebit (byte AND 1) s irqs of
              None \<Rightarrow> None
            | Some (s', irqs') \<Rightarrow> writebyte_loop (i + 1) (drop_bit 1 byte) s' irqs')
      else Some (s, irqs))"
  by pat_completeness auto
termination
  by (relation "measure (\<lambda>(i, byte, s, irqs). 8 - unat i)") (auto simp: unat_word_ariths word_less_nat_alt)

definition onewire0_writebyte :: "8 word \<Rightarrow> mcu \<Rightarrow> 8 word list \<Rightarrow> (mcu \<times> 8 word list) option" where
  "onewire0_writebyte byte s irqs = writebyte_loop 0 byte (starttimer s) irqs"

function readbyte_loop ::
  "8 word \<Rightarrow> 8 word \<Rightarrow> mcu \<Rightarrow> 8 word list \<Rightarrow> (8 word \<times> mcu \<times> 8 word list) option" where
  "readbyte_loop i byte s irqs =
     (if i < 8
      then (case readbit s irqs of
              None \<Rightarrow> None
            | Some (r, s', irqs') \<Rightarrow>
                readbyte_loop (i + 1) (drop_bit 1 (if r \<noteq> 0 then byte OR 0x80 else byte)) s' irqs')
      else Some (byte, s, irqs))"
  by pat_completeness auto
termination
  by (relation "measure (\<lambda>(i, byte, s, irqs). 8 - unat i)") (auto simp: unat_word_ariths word_less_nat_alt)

definition onewire0_readbyte :: "mcu \<Rightarrow> 8 word list \<Rightarrow> (8 word \<times> mcu \<times> 8 word list) option" where
  "onewire0_readbyte s irqs = readbyte_loop 0 0 (starttimer s) irqs"

subsection \<open>Notions used to state the properties\<close>

text \<open>
  The state after reset: the C runtime clears static storage and the ATtiny85 clears the
  registers used here.
\<close>

definition power_on :: mcu where
  "power_on =
     \<lparr>onewire0 = \<lparr>state = OW0_IDLE, bit_ow = 0\<rparr>, DDRB = 0, PORTB = 0, TCCR0A = 0,
      TCCR0B = 0, TCNT0 = 0, OCR0A = 0, OCR0B = 0, TIMSK = 0, TIFR = 0\<rparr>"

text \<open>
  The pin drives the bus when it is an output (its bit of \<^verbatim>\<open>DDRB\<close> is set), and is
  released when it is an input. The driven bus is low when the output latch of the pin
  (its bit of \<^verbatim>\<open>PORTB\<close>) is clear, as the initialisation leaves it.
\<close>

definition driving :: "mcu \<Rightarrow> bool" where
  "driving s = (DDRB s AND PIN \<noteq> 0)"

definition pulls_low :: "mcu \<Rightarrow> bool" where
  "pulls_low s = (driving s \<and> PORTB s AND PIN = 0)"

text \<open>The level of the bus pin in a value read from \<^verbatim>\<open>PINB\<close>, as the byte 0 or 1.\<close>

definition level :: "8 word \<Rightarrow> 8 word" where
  "level pinb = (if pinb AND PIN \<noteq> 0 then 1 else 0)"

text \<open>
  The handler as the specification views it: a step on the operation state, the compare
  register, whether the pin drives the bus, and the sampled bit. \<open>table_step\<close> is the
  transition table of the specification, row by row; its first argument is the level of
  the bus at the interrupt.
\<close>

type_synonym slot_view = "onewire0_state \<times> 8 word \<times> bool \<times> 8 word"

definition view :: "mcu \<Rightarrow> slot_view" where
  "view s = (state (onewire0 s), OCR0A s, driving s, bit_ow (onewire0 s))"

fun table_step :: "8 word \<Rightarrow> slot_view \<Rightarrow> slot_view" where
  "table_step lvl (OW0_IDLE, ocr, drv, b) = (OW0_IDLE, ocr, drv, b)"
| "table_step lvl (OW0_WRITE0_LOW, ocr, drv, b) = (OW0_WRITE0_RELEASE, GAP_D, False, b)"
| "table_step lvl (OW0_WRITE0_RELEASE, ocr, drv, b) = (OW0_IDLE, ocr, drv, b)"
| "table_step lvl (OW0_WRITE1_LOW, ocr, drv, b) = (OW0_WRITE1_RELEASE, GAP_B, False, b)"
| "table_step lvl (OW0_WRITE1_RELEASE, ocr, drv, b) = (OW0_IDLE, ocr, drv, b)"
| "table_step lvl (OW0_READ_LOW, ocr, drv, b) = (OW0_READ_SAMPLE, GAP_E, False, b)"
| "table_step lvl (OW0_READ_SAMPLE, ocr, drv, b) = (OW0_READ_RELEASE, GAP_F, drv, lvl)"
| "table_step lvl (OW0_READ_RELEASE, ocr, drv, b) = (OW0_IDLE, ocr, drv, b)"

text \<open>
  The bits of a byte, least significant first, each as the byte 0 or 1 that a bit routine
  takes or returns.
\<close>

definition lsb_first :: "8 word \<Rightarrow> 8 word list" where
  "lsb_first byte = map (\<lambda>k. if bit byte k then 1 else 0) [0..<8]"

text \<open>One write slot after the other, for a list of bit values.\<close>

fun writebits :: "8 word list \<Rightarrow> mcu \<Rightarrow> 8 word list \<Rightarrow> (mcu \<times> 8 word list) option" where
  "writebits [] s irqs = Some (s, irqs)"
| "writebits (v # vs) s irqs =
     (case writebit v s irqs of
        None \<Rightarrow> None
      | Some (s', irqs') \<Rightarrow> writebits vs s' irqs')"

text \<open>
  The compliant peer of the round-trip test of the specification. A read slot takes three
  interrupts: at the first the driver still holds the bus low, at the second the bus shows
  the bit the peer sends, at the third the bus is idle and high. \<open>loopback\<close> sends a list
  of bit values, one slot each, in order.
\<close>

definition peer_slot :: "8 word \<Rightarrow> 8 word list" where
  "peer_slot b = [0, if b \<noteq> 0 then PIN else 0, PIN]"

definition loopback :: "8 word list \<Rightarrow> 8 word list" where
  "loopback bs = concat (map peer_slot bs)"

text \<open>
  The bit that the \<open>k\<close>-th read slot of a byte samples, counted from 0, when the
  interrupts \<open>irqs\<close> arrive: the level at the second interrupt of the slot.
\<close>

definition sampled :: "8 word list \<Rightarrow> nat \<Rightarrow> 8 word" where
  "sampled irqs k = level (irqs ! (3 * k + 1))"

text \<open>
  The loop body of \<^verbatim>\<open>onewire0_readbyte\<close> on the accumulator alone: a bit that is set
  goes into position \<^verbatim>\<open>0x80\<close>, then the accumulator moves right by one.
\<close>

definition shift_in :: "8 word \<Rightarrow> 8 word \<Rightarrow> 8 word" where
  "shift_in byte r = drop_bit 1 (if r \<noteq> 0 then byte OR 0x80 else byte)"

text \<open>A given number of read slots, one after the other, with the bits they return.\<close>

fun readbits ::
  "nat \<Rightarrow> mcu \<Rightarrow> 8 word list \<Rightarrow> (8 word list \<times> mcu \<times> 8 word list) option" where
  "readbits 0 s irqs = Some ([], s, irqs)"
| "readbits (Suc n) s irqs =
     (case readbit s irqs of
        None \<Rightarrow> None
      | Some (r, s', irqs') \<Rightarrow>
          (case readbits n s' irqs' of
             None \<Rightarrow> None
           | Some (rs, s'', irqs'') \<Rightarrow> Some (r # rs, s'', irqs'')))"

text \<open>
  The machine after a complete write slot for the bit value \<open>v\<close>, and after a complete
  read slot that saw \<open>pinb\<close> on the input register when it sampled.
\<close>

definition write_done :: "8 word \<Rightarrow> mcu \<Rightarrow> mcu" where
  "write_done v s =
     s\<lparr>TCNT0 := 0, OCR0A := (if v \<noteq> 0 then GAP_B else GAP_D), DDRB := DDRB s AND NOT PIN,
       onewire0 := (onewire0 s)\<lparr>state := OW0_IDLE\<rparr>\<rparr>"

definition read_done :: "8 word \<Rightarrow> mcu \<Rightarrow> mcu" where
  "read_done pinb s =
     s\<lparr>TCNT0 := 0, OCR0A := GAP_F, DDRB := DDRB s AND NOT PIN,
       onewire0 := \<lparr>state = OW0_IDLE, bit_ow = level pinb\<rparr>\<rparr>"

subsection \<open>The write path with the bus observed\<close>

text \<open>
  What a write puts on the bus is not left in the registers when the routine returns, so
  the write routines are given once more with the bus observed; the code is the same. A
  phase is a stretch of time that ends with a compare match: it is recorded as whether the
  pin drives the bus during it, and the compare interval programmed for it. The observed
  busy-wait records, for each compare match that arrives while the state is not idle, the
  phase that the match ends. The observed \<^verbatim>\<open>_writebit\<close> is the same straight-line part
  followed by the observed wait. The observed loop of \<^verbatim>\<open>onewire0_writebyte\<close> records
  for each call of \<^verbatim>\<open>_writebit\<close> the value passed to it and the phases of its slot, in
  the order of the calls.
\<close>

type_synonym phase = "bool \<times> 8 word"

fun busy_wait_traced ::
  "mcu \<Rightarrow> 8 word list \<Rightarrow> (phase list \<times> mcu \<times> 8 word list) option" where
  "busy_wait_traced s [] = (if state (onewire0 s) \<noteq> OW0_IDLE then None else Some ([], s, []))"
| "busy_wait_traced s (pinb # irqs) =
     (if state (onewire0 s) \<noteq> OW0_IDLE
      then (case busy_wait_traced (ISR pinb s) irqs of
              None \<Rightarrow> None
            | Some (phs, s', irqs') \<Rightarrow> Some ((driving s, OCR0A s) # phs, s', irqs'))
      else Some ([], s, pinb # irqs))"

definition writebit_traced ::
  "8 word \<Rightarrow> mcu \<Rightarrow> 8 word list \<Rightarrow> (phase list \<times> mcu \<times> 8 word list) option" where
  "writebit_traced val s irqs = busy_wait_traced (writebit_arm val s) irqs"

function writebyte_loop_traced ::
  "8 word \<Rightarrow> 8 word \<Rightarrow> (8 word \<times> phase list) list \<Rightarrow> mcu \<Rightarrow> 8 word list
     \<Rightarrow> ((8 word \<times> phase list) list \<times> mcu \<times> 8 word list) option" where
  "writebyte_loop_traced i byte tr s irqs =
     (if i < 8
      then (case writebit_traced (byte AND 1) s irqs of
              None \<Rightarrow> None
            | Some (phs, s', irqs') \<Rightarrow>
                writebyte_loop_traced (i + 1) (drop_bit 1 byte) (tr @ [(byte AND 1, phs)]) s' irqs')
      else Some (tr, s, irqs))"
  by pat_completeness auto
termination
  by (relation "measure (\<lambda>(i, byte, tr, s, irqs). 8 - unat i)")
     (auto simp: unat_word_ariths word_less_nat_alt)

definition onewire0_writebyte_traced ::
  "8 word \<Rightarrow> mcu \<Rightarrow> 8 word list
     \<Rightarrow> ((8 word \<times> phase list) list \<times> mcu \<times> 8 word list) option" where
  "onewire0_writebyte_traced byte s irqs = writebyte_loop_traced 0 byte [] (starttimer s) irqs"

declare writebyte_loop.simps [simp del] readbyte_loop.simps [simp del]
  writebyte_loop_traced.simps [simp del]

section \<open>Auxiliary facts\<close>

subsection \<open>Bytes and lists\<close>

lemma PIN_nonzero: "PIN \<noteq> 0"
  by (simp add: PIN_def PORTB0_def)

lemma or_and_not_same: "(w OR m) AND NOT m = w AND NOT (m :: 8 word)"
  by (rule bit_eqI) (auto simp: bit_simps)

lemma and_not_and_same: "(w AND NOT m) AND m = (0 :: 8 word)"
  by (rule bit_eqI) (auto simp: bit_simps)

lemma or_and_same: "(w OR m) AND m = (m :: 8 word)"
  by (rule bit_eqI) (auto simp: bit_simps)

lemma and_not_twice: "(w AND NOT m) AND NOT m = w AND NOT (m :: 8 word)"
  by (rule bit_eqI) (auto simp: bit_simps)

lemma unat_succ8: "i < 8 \<Longrightarrow> unat (i + 1 :: 8 word) = Suc (unat i)"
  by (simp add: unat_word_ariths word_less_nat_alt)

lemma and_one_bit0: "(w :: 8 word) AND 1 = (if bit w 0 then 1 else 0)"
  by (simp add: and_one_eq bit_0 mod_2_eq_odd)

lemma bit_0x80: "bit (0x80 :: 8 word) k \<longleftrightarrow> k = 7"
  using bit_exp_iff [where ?'a = "8 word", of 7 k] by auto

lemma upt_shift: "map f [0..<Suc n] = f 0 # map (\<lambda>k. f (Suc k)) [0..<n]"
  by (simp add: upt_conv_Cons map_Suc_upt [symmetric] del: upt_Suc)

lemma list_two: "2 \<le> length xs \<Longrightarrow> xs = xs ! 0 # xs ! 1 # drop 2 xs"
  by (cases xs; cases "tl xs") auto

lemma list_three: "3 \<le> length xs \<Longrightarrow> xs = xs ! 0 # xs ! 1 # xs ! 2 # drop 3 xs"
  by (cases xs; cases "tl xs"; cases "tl (tl xs)") auto

lemma bit_shift_in:
  "bit (shift_in byte r) k \<longleftrightarrow> (k = 6 \<and> r \<noteq> 0) \<or> bit byte (Suc k)"
proof -
  have d: "bit (drop_bit 1 w) k = bit w (Suc k)" for w :: "8 word"
    by (simp add: bit_drop_bit_eq)
  have "bit (byte OR 0x80) (Suc k) \<longleftrightarrow> k = 6 \<or> bit byte (Suc k)"
    unfolding bit_or_iff bit_0x80 by auto
  then show ?thesis
    unfolding shift_in_def d by (cases "r = 0") simp_all
qed

text \<open>
  Where the bits end up after any number of loop bodies: the bit shifted in by the last
  body is at position 6, the one before it at position 5, and so on; what is left of the
  initial accumulator has moved down by the number of bodies.
\<close>

lemma bit_foldl_shift_in:
  "bit (foldl shift_in byte rs) k \<longleftrightarrow>
     (k < 7 \<and> 7 \<le> k + length rs \<and> rs ! (k + length rs - 7) \<noteq> 0)
     \<or> bit byte (k + length rs)"
proof (induction rs arbitrary: k rule: rev_induct)
  case Nil
  then show ?case by (auto dest: bit_imp_le_length)
next
  case (snoc r rs)
  show ?case
  proof (cases "k = 6")
    case True
    then show ?thesis
      using snoc [of 7] by (auto simp: bit_shift_in nth_append dest: bit_imp_le_length)
  next
    case False
    then show ?thesis
      using snoc [of "Suc k"]
      by (auto simp: bit_shift_in nth_append Suc_diff_le dest: bit_imp_le_length)
  qed
qed

lemma length_lsb_first: "length (lsb_first v) = 8"
  by (simp add: lsb_first_def)

lemma lsb_first_nth: "k < 8 \<Longrightarrow> lsb_first v ! k = (if bit v k then 1 else 0)"
  by (simp add: lsb_first_def del: upt_Suc)

lemma sampled_drop: "3 \<le> length irqs \<Longrightarrow> sampled (drop 3 irqs) k = sampled irqs (Suc k)"
  by (simp add: sampled_def add.commute)

lemma sampled_0: "sampled irqs 0 = level (irqs ! 1)"
  by (simp add: sampled_def)

subsection \<open>The handler and the wait\<close>

lemma driving_pulllow: "driving (pulllow s)"
  by (simp add: driving_def pulllow_def or_and_same PIN_nonzero)

lemma ISR_DDRB:
  "DDRB (ISR p s) =
     (if state (onewire0 s) \<in> {OW0_WRITE0_LOW, OW0_WRITE1_LOW, OW0_READ_LOW}
      then DDRB s AND NOT PIN else DDRB s)"
  by (simp add: ISR_def release_def split: onewire0_state.split)

lemma ISR_frame:
  "PORTB (ISR p s) = PORTB s" "TCCR0A (ISR p s) = TCCR0A s" "TCCR0B (ISR p s) = TCCR0B s"
  "TCNT0 (ISR p s) = TCNT0 s" "OCR0B (ISR p s) = OCR0B s" "TIMSK (ISR p s) = TIMSK s"
  "TIFR (ISR p s) = TIFR s"
  by (simp_all add: ISR_def release_def split: onewire0_state.split)

lemma starttimer_frame:
  "onewire0 (starttimer s) = onewire0 s" "DDRB (starttimer s) = DDRB s"
  "PORTB (starttimer s) = PORTB s"
  by (simp_all add: starttimer_def)

lemma busy_wait_idle: "state (onewire0 s) = OW0_IDLE \<Longrightarrow> busy_wait s irqs = Some (s, irqs)"
  by (cases irqs) simp_all

lemma busy_wait_Some_idle:
  "busy_wait s irqs = Some (s', irqs') \<Longrightarrow> state (onewire0 s') = OW0_IDLE"
  by (induction s irqs rule: busy_wait.induct) (auto split: if_splits)

subsection \<open>One slot\<close>

lemma writebit_arm_eq:
  "writebit_arm v s =
     s\<lparr>TCNT0 := 0, OCR0A := (if v \<noteq> 0 then GAP_A else GAP_C), DDRB := DDRB s OR PIN,
       onewire0 := (onewire0 s)\<lparr>state := (if v \<noteq> 0 then OW0_WRITE1_LOW else OW0_WRITE0_LOW)\<rparr>\<rparr>"
  by (simp add: writebit_arm_def pulllow_def)

lemma readbit_arm_eq:
  "readbit_arm s =
     s\<lparr>TCNT0 := 0, OCR0A := GAP_A, DDRB := DDRB s OR PIN,
       onewire0 := (onewire0 s)\<lparr>state := OW0_READ_LOW\<rparr>\<rparr>"
  by (simp add: readbit_arm_def pulllow_def)

lemma writebit_short: "writebit v s [] = None" "writebit v s [p] = None"
  by (simp_all add: writebit_def writebit_arm_eq ISR_def release_def)

lemma writebit_two: "writebit v s (p1 # p2 # irqs) = Some (write_done v s, irqs)"
  by (simp add: writebit_def writebit_arm_eq ISR_def release_def busy_wait_idle write_done_def
      or_and_not_same)

lemma readbit_short: "readbit s [] = None" "readbit s [p] = None" "readbit s [p, q] = None"
  by (simp_all add: readbit_def readbit_arm_eq ISR_def release_def)

lemma readbit_three:
  "readbit s (p1 # p2 # p3 # irqs) = Some (level p2, read_done p2 s, irqs)"
  by (simp add: readbit_def readbit_arm_eq ISR_def release_def busy_wait_idle read_done_def
      or_and_not_same level_def)

lemma writebit_len:
  assumes "2 \<le> length irqs"
  shows "writebit v s irqs = Some (write_done v s, drop 2 irqs)"
proof -
  from assms obtain p1 p2 where "irqs = p1 # p2 # drop 2 irqs"
    using list_two by blast
  then show ?thesis using writebit_two by metis
qed

lemma readbit_len:
  assumes "3 \<le> length irqs"
  shows "readbit s irqs = Some (level (irqs ! 1), read_done (irqs ! 1) s, drop 3 irqs)"
proof -
  from assms have "irqs = irqs ! 0 # irqs ! 1 # irqs ! 2 # drop 3 irqs"
    by (rule list_three)
  then show ?thesis using readbit_three by metis
qed

lemma writebit_Some:
  assumes "writebit v s irqs = Some (s', irqs')"
  shows "2 \<le> length irqs \<and> s' = write_done v s \<and> irqs' = drop 2 irqs"
proof (cases "2 \<le> length irqs")
  case True
  with assms show ?thesis by (simp add: writebit_len)
next
  case False
  then have "irqs = [] \<or> (\<exists>p. irqs = [p])"
    by (cases irqs; cases "tl irqs") auto
  with assms show ?thesis by (auto simp: writebit_short)
qed

lemma readbit_Some:
  assumes "readbit s irqs = Some (r, s', irqs')"
  shows "3 \<le> length irqs \<and> r = level (irqs ! 1) \<and> s' = read_done (irqs ! 1) s
         \<and> irqs' = drop 3 irqs"
proof (cases "3 \<le> length irqs")
  case True
  with assms show ?thesis by (simp add: readbit_len)
next
  case False
  then have "irqs = [] \<or> (\<exists>p. irqs = [p]) \<or> (\<exists>p q. irqs = [p, q])"
    by (cases irqs; cases "tl irqs"; cases "tl (tl irqs)") auto
  with assms show ?thesis by (auto simp: readbit_short)
qed

subsection \<open>The byte loops\<close>

text \<open>
  The loop of \<^verbatim>\<open>onewire0_writebyte\<close>, entered with the counter at \<open>i\<close>, runs the
  write slots for the \<open>8 - i\<close> low bits of the byte it holds, lowest first.
\<close>

lemma writebyte_loop_writebits:
  "writebyte_loop i byte s irqs =
     writebits (map (\<lambda>k. if bit byte k then 1 else 0) [0..<8 - unat i]) s irqs"
proof (induction i byte s irqs rule: writebyte_loop.induct)
  case (1 i byte s irqs)
  show ?case
  proof (cases "i < 8")
    case False
    then have "8 - unat i = 0"
      by (simp add: word_less_nat_alt)
    with False show ?thesis
      by (subst writebyte_loop.simps) simp
  next
    case True
    then have n: "8 - unat i = Suc (8 - unat (i + 1))"
      by (simp add: unat_succ8 word_less_nat_alt)
    show ?thesis
    proof (cases "writebit (byte AND 1) s irqs")
      case None
      with True show ?thesis
        by (subst writebyte_loop.simps) (simp add: n upt_shift and_one_bit0 del: upt_Suc)
    next
      case (Some r)
      obtain s' irqs' where r: "r = (s', irqs')" by (cases r)
      from "1.IH" [OF True Some r [symmetric]] True Some r show ?thesis
        by (subst writebyte_loop.simps)
           (simp add: n upt_shift and_one_bit0 bit_drop_bit_eq del: upt_Suc)
    qed
  qed
qed

lemma writebyte_writebits:
  "onewire0_writebyte byte s irqs = writebits (lsb_first byte) (starttimer s) irqs"
  by (simp add: onewire0_writebyte_def writebyte_loop_writebits lsb_first_def)

text \<open>
  The loop of \<^verbatim>\<open>onewire0_readbyte\<close>, entered with the counter at \<open>i\<close>, runs \<open>8 - i\<close>
  read slots and applies the loop body to the accumulator once for each bit returned.
\<close>

lemma readbyte_loop_readbits:
  "readbyte_loop i byte s irqs =
     (case readbits (8 - unat i) s irqs of
        None \<Rightarrow> None
      | Some (rs, s', irqs') \<Rightarrow> Some (foldl shift_in byte rs, s', irqs'))"
proof (induction i byte s irqs rule: readbyte_loop.induct)
  case (1 i byte s irqs)
  show ?case
  proof (cases "i < 8")
    case False
    then have "8 - unat i = 0"
      by (simp add: word_less_nat_alt)
    with False show ?thesis
      by (subst readbyte_loop.simps) simp
  next
    case True
    then have n: "8 - unat i = Suc (8 - unat (i + 1))"
      by (simp add: unat_succ8 word_less_nat_alt)
    show ?thesis
    proof (cases "readbit s irqs")
      case None
      with True show ?thesis
        by (subst readbyte_loop.simps) (simp add: n)
    next
      case (Some x)
      obtain r s' irqs' where x: "x = (r, s', irqs')" by (cases x)
      from "1.IH" [OF True Some x [symmetric] refl] True Some x show ?thesis
        by (subst readbyte_loop.simps) (simp add: n shift_in_def split: option.split)
    qed
  qed
qed

lemma readbyte_readbits:
  "onewire0_readbyte s irqs =
     (case readbits 8 (starttimer s) irqs of
        None \<Rightarrow> None
      | Some (rs, s', irqs') \<Rightarrow> Some (foldl shift_in 0 rs, s', irqs'))"
  by (simp add: onewire0_readbyte_def readbyte_loop_readbits)

lemma writebits_Some_idle:
  "writebits vs s irqs = Some (s', irqs') \<Longrightarrow> state (onewire0 s) = OW0_IDLE
     \<Longrightarrow> state (onewire0 s') = OW0_IDLE"
proof (induction vs arbitrary: s irqs)
  case Nil
  then show ?case by simp
next
  case (Cons v vs)
  from Cons.prems(1) obtain s1 irqs1 where
    w: "writebit v s irqs = Some (s1, irqs1)" and rest: "writebits vs s1 irqs1 = Some (s', irqs')"
    by (auto split: option.splits)
  from w have "state (onewire0 s1) = OW0_IDLE"
    by (auto dest: writebit_Some simp: write_done_def)
  with rest show ?case by (rule Cons.IH)
qed

lemma writebits_run:
  "2 * length vs \<le> length irqs \<Longrightarrow>
     writebits vs s irqs = Some (foldl (\<lambda>t v. write_done v t) s vs, drop (2 * length vs) irqs)"
proof (induction vs arbitrary: s irqs)
  case Nil
  then show ?case by simp
next
  case (Cons v vs)
  then have two: "2 \<le> length irqs" and more: "2 * length vs \<le> length (drop 2 irqs)"
    by simp_all
  show ?case
    by (simp add: writebit_len [OF two] Cons.IH [OF more] add.commute)
qed

lemma readbits_Some_idle:
  "readbits n s irqs = Some (rs, s', irqs') \<Longrightarrow> state (onewire0 s) = OW0_IDLE
     \<Longrightarrow> state (onewire0 s') = OW0_IDLE"
proof (induction n arbitrary: s irqs rs)
  case 0
  then show ?case by simp
next
  case (Suc n)
  from Suc.prems(1) obtain r s1 irqs1 rs1 where
    r: "readbit s irqs = Some (r, s1, irqs1)" and rest: "readbits n s1 irqs1 = Some (rs1, s', irqs')"
    by (auto split: option.splits)
  from r have "state (onewire0 s1) = OW0_IDLE"
    by (auto dest: readbit_Some simp: read_done_def)
  with rest show ?case by (rule Suc.IH)
qed

lemma readbits_run:
  "3 * n \<le> length irqs \<Longrightarrow>
     \<exists>s'. readbits n s irqs = Some (map (sampled irqs) [0..<n], s', drop (3 * n) irqs)"
proof (induction n arbitrary: s irqs)
  case 0
  then show ?case by simp
next
  case (Suc n)
  then have three: "3 \<le> length irqs" and more: "3 * n \<le> length (drop 3 irqs)"
    by simp_all
  from Suc.IH [OF more] obtain s' where
    "readbits n (read_done (irqs ! 1) s) (drop 3 irqs) =
       Some (map (sampled (drop 3 irqs)) [0..<n], s', drop (3 * n) (drop 3 irqs))"
    by blast
  then have "readbits (Suc n) s irqs =
       Some (map (sampled irqs) [0..<Suc n], s', drop (3 * Suc n) irqs)"
    by (simp add: readbit_len [OF three] upt_shift sampled_drop [OF three] sampled_0 add.commute
        del: upt_Suc)
  then show ?case by blast
qed

lemma readbits_loopback:
  "\<exists>s'. readbits (length bs) s (loopback bs) =
          Some (map (\<lambda>b. if b \<noteq> 0 then 1 else 0) bs, s', [])"
proof (induction bs arbitrary: s)
  case Nil
  then show ?case by (simp add: loopback_def)
next
  case (Cons b bs)
  have lv: "level (if b \<noteq> 0 then PIN else 0) = (if b \<noteq> 0 then 1 else 0)"
    by (simp add: level_def PIN_nonzero)
  from Cons [of "read_done (if b \<noteq> 0 then PIN else 0) s"] show ?case
    by (auto simp: loopback_def peer_slot_def readbit_three lv)
qed

section \<open>The interrupt handler\<close>

text \<open>
  Claim C4. The interrupt handler, seen as a step on the operation state, the compare
  register, the drive direction of the pin and the sampled bit, is the transition table of
  the specification: idle stays as it is; each of the three low states releases the bus,
  programs the next interval (D after a write-0 low phase, B after a write-1 low phase, E
  after a read low phase) and moves on; the sample state stores the level of the pin in
  the sampled bit, programs F and moves on; each of the three release states moves to
  idle. Nothing else changes: the other registers keep their values, and so do the other
  bits of the direction register. In idle the handler changes nothing at all, and a
  release state differs from the state it yields in the operation state only.
\<close>

theorem ISR_transition_table:
  "view (ISR pinb s) = table_step (level pinb) (view s)
   \<and> DDRB (ISR pinb s) AND NOT PIN = DDRB s AND NOT PIN
   \<and> PORTB (ISR pinb s) = PORTB s \<and> TCCR0A (ISR pinb s) = TCCR0A s
   \<and> TCCR0B (ISR pinb s) = TCCR0B s \<and> TCNT0 (ISR pinb s) = TCNT0 s
   \<and> OCR0B (ISR pinb s) = OCR0B s \<and> TIMSK (ISR pinb s) = TIMSK s
   \<and> TIFR (ISR pinb s) = TIFR s
   \<and> ISR pinb (s\<lparr>onewire0 := (onewire0 s)\<lparr>state := OW0_IDLE\<rparr>\<rparr>)
       = s\<lparr>onewire0 := (onewire0 s)\<lparr>state := OW0_IDLE\<rparr>\<rparr>
   \<and> ISR pinb (s\<lparr>onewire0 := (onewire0 s)\<lparr>state := OW0_WRITE0_RELEASE\<rparr>\<rparr>)
       = s\<lparr>onewire0 := (onewire0 s)\<lparr>state := OW0_IDLE\<rparr>\<rparr>
   \<and> ISR pinb (s\<lparr>onewire0 := (onewire0 s)\<lparr>state := OW0_WRITE1_RELEASE\<rparr>\<rparr>)
       = s\<lparr>onewire0 := (onewire0 s)\<lparr>state := OW0_IDLE\<rparr>\<rparr>
   \<and> ISR pinb (s\<lparr>onewire0 := (onewire0 s)\<lparr>state := OW0_READ_RELEASE\<rparr>\<rparr>)
       = s\<lparr>onewire0 := (onewire0 s)\<lparr>state := OW0_IDLE\<rparr>\<rparr>"
proof -
  have "view (ISR pinb s) = table_step (level pinb) (view s)"
    by (cases "state (onewire0 s)")
       (simp_all add: ISR_def view_def release_def level_def driving_def and_not_and_same)
  moreover have "DDRB (ISR pinb s) AND NOT PIN = DDRB s AND NOT PIN"
    by (simp add: ISR_DDRB and_not_twice)
  moreover have "ISR pinb (s\<lparr>onewire0 := (onewire0 s)\<lparr>state := st\<rparr>\<rparr>)
      = s\<lparr>onewire0 := (onewire0 s)\<lparr>state := OW0_IDLE\<rparr>\<rparr>"
    if "st \<in> {OW0_IDLE, OW0_WRITE0_RELEASE, OW0_WRITE1_RELEASE, OW0_READ_RELEASE}" for st
    using that by (auto simp: ISR_def)
  ultimately show ?thesis
    by (simp add: ISR_frame)
qed

theorem ISR_transition_table_witness:
  "view (ISR PIN (readbit_arm power_on)) = (OW0_READ_SAMPLE, 9, False, 0)
   \<and> view (ISR PIN (ISR PIN (readbit_arm power_on))) = (OW0_READ_RELEASE, 55, False, 1)
   \<and> view (ISR 0 (writebit_arm 0 power_on)) = (OW0_WRITE0_RELEASE, 10, False, 0)
   \<and> view (ISR 0 (writebit_arm 1 power_on)) = (OW0_WRITE1_RELEASE, 64, False, 0)"
proof -
  have l: "level PIN = 1" "level 0 = 0"
    by (simp_all add: level_def PIN_def PORTB0_def)
  have v: "view (readbit_arm power_on) = (OW0_READ_LOW, 6, True, 0)"
      "view (writebit_arm 0 power_on) = (OW0_WRITE0_LOW, 60, True, 0)"
      "view (writebit_arm 1 power_on) = (OW0_WRITE1_LOW, 6, True, 0)"
    by (simp_all add: view_def readbit_arm_eq writebit_arm_eq power_on_def driving_def
        PIN_def PORTB0_def GAP_A_def GAP_C_def)
  show ?thesis
    using ISR_transition_table [of PIN "readbit_arm power_on"]
      ISR_transition_table [of PIN "ISR PIN (readbit_arm power_on)"]
      ISR_transition_table [of 0 "writebit_arm 0 power_on"]
      ISR_transition_table [of 0 "writebit_arm 1 power_on"]
    by (simp add: l v GAP_B_def GAP_D_def GAP_E_def GAP_F_def)
qed

section \<open>Timing constants\<close>

text \<open>
  Claim C7. The six constants of a bit slot have the values A = 6, B = 64, C = 60, D = 10,
  E = 9 and F = 55, and each phase programs the compare register with its constant: A for
  the low phase of a write of 1 and of a read, C for the low phase of a write of 0, B and D
  when the handler releases the bus after a write of 1 and of 0, E when it releases the bus
  in a read, F when it has sampled. No other step of the handler touches the compare
  register.
\<close>

theorem gap_constants:
  "GAP_A = 6 \<and> GAP_B = 64 \<and> GAP_C = 60 \<and> GAP_D = 10 \<and> GAP_E = 9 \<and> GAP_F = 55
   \<and> OCR0A (writebit_arm v s) = (if v \<noteq> 0 then 6 else 60)
   \<and> OCR0A (readbit_arm s) = 6
   \<and> OCR0A (ISR pinb s) =
       (case state (onewire0 s) of
          OW0_WRITE1_LOW \<Rightarrow> 64
        | OW0_WRITE0_LOW \<Rightarrow> 10
        | OW0_READ_LOW \<Rightarrow> 9
        | OW0_READ_SAMPLE \<Rightarrow> 55
        | _ \<Rightarrow> OCR0A s)"
proof -
  have "OCR0A (ISR pinb s) =
       (case state (onewire0 s) of
          OW0_WRITE1_LOW \<Rightarrow> 64
        | OW0_WRITE0_LOW \<Rightarrow> 10
        | OW0_READ_LOW \<Rightarrow> 9
        | OW0_READ_SAMPLE \<Rightarrow> 55
        | _ \<Rightarrow> OCR0A s)"
    by (cases "state (onewire0 s)")
       (simp_all add: ISR_def release_def GAP_B_def GAP_D_def GAP_E_def GAP_F_def)
  then show ?thesis
    by (simp add: writebit_arm_eq readbit_arm_eq GAP_A_def GAP_B_def GAP_C_def GAP_D_def
        GAP_E_def GAP_F_def)
qed

theorem gap_constants_witness:
  "OCR0A (writebit_arm 1 power_on) = 6 \<and> OCR0A (ISR 0 (writebit_arm 1 power_on)) = 64
   \<and> OCR0A (writebit_arm 0 power_on) = 60 \<and> OCR0A (ISR 0 (writebit_arm 0 power_on)) = 10
   \<and> OCR0A (readbit_arm power_on) = 6 \<and> OCR0A (ISR 0 (readbit_arm power_on)) = 9
   \<and> OCR0A (ISR 0 (ISR 0 (readbit_arm power_on))) = 55"
proof -
  have st: "state (onewire0 (writebit_arm 1 power_on)) = OW0_WRITE1_LOW"
      "state (onewire0 (writebit_arm 0 power_on)) = OW0_WRITE0_LOW"
      "state (onewire0 (readbit_arm power_on)) = OW0_READ_LOW"
      "state (onewire0 (ISR 0 (readbit_arm power_on))) = OW0_READ_SAMPLE"
    by (simp_all add: writebit_arm_eq readbit_arm_eq ISR_def release_def)
  show ?thesis
    using gap_constants [of 1 power_on 0] gap_constants [of 0 power_on 0]
      gap_constants [of 1 "writebit_arm 1 power_on" 0]
      gap_constants [of 1 "writebit_arm 0 power_on" 0]
      gap_constants [of 1 "readbit_arm power_on" 0]
      gap_constants [of 1 "ISR 0 (readbit_arm power_on)" 0]
    by (simp add: st)
qed

section \<open>Bit slots\<close>

lemma driving_ISR: "driving (ISR p s) \<Longrightarrow> driving s"
  by (auto simp: driving_def ISR_DDRB and_not_and_same split: if_splits)

lemma busy_wait_driving:
  "busy_wait s irqs = Some (s', irqs') \<Longrightarrow> driving s' \<Longrightarrow> driving s"
  by (induction s irqs rule: busy_wait.induct) (auto split: if_splits dest: driving_ISR)

lemma not_driving_write_done: "\<not> driving (write_done v s)"
  by (simp add: driving_def write_done_def and_not_and_same)

lemma not_driving_read_done: "\<not> driving (read_done p s)"
  by (simp add: driving_def read_done_def and_not_and_same)

lemma write_slot_steps:
  "state (onewire0 (ISR p1 (writebit_arm v s))) \<noteq> OW0_IDLE"
  "ISR p2 (ISR p1 (writebit_arm v s)) = write_done v s"
  by (simp_all add: writebit_arm_eq ISR_def release_def write_done_def or_and_not_same)

lemma read_slot_steps:
  "state (onewire0 (ISR p1 (readbit_arm s))) = OW0_READ_SAMPLE"
  "state (onewire0 (ISR p2 (ISR p1 (readbit_arm s)))) = OW0_READ_RELEASE"
  "bit_ow (onewire0 (ISR p2 (ISR p1 (readbit_arm s)))) = level p2"
  "ISR p3 (ISR p2 (ISR p1 (readbit_arm s))) = read_done p2 s"
  by (simp_all add: readbit_arm_eq ISR_def release_def read_done_def or_and_not_same level_def)

text \<open>
  Claim C5. \<^verbatim>\<open>_writebit\<close> resets the timer counter to zero; for a nonzero value it
  programs the compare value A and sets the state to write-1-low, for zero it programs C
  and sets the state to write-0-low; it makes the pin an output, which pulls the bus low
  when the output latch is clear; then it waits. With no interrupt or one interrupt only
  the wait does not end, the state being not idle after the first interrupt; with two
  interrupts the routine returns, in the state the handler has reached by then. Whenever
  the routine returns, the state is idle and the pin does not drive the bus.
\<close>

theorem writebit_slot:
  "writebit_arm v s =
     s\<lparr>TCNT0 := 0, OCR0A := (if v \<noteq> 0 then GAP_A else GAP_C), DDRB := DDRB s OR PIN,
       onewire0 := (onewire0 s)\<lparr>state := (if v \<noteq> 0 then OW0_WRITE1_LOW else OW0_WRITE0_LOW)\<rparr>\<rparr>
   \<and> driving (writebit_arm v s)
   \<and> (PORTB s AND PIN = 0 \<longrightarrow> pulls_low (writebit_arm v s))
   \<and> writebit v s irqs = busy_wait (writebit_arm v s) irqs
   \<and> writebit v s [] = None \<and> writebit v s [p1] = None
   \<and> state (onewire0 (ISR p1 (writebit_arm v s))) \<noteq> OW0_IDLE
   \<and> writebit v s (p1 # p2 # irqs) = Some (ISR p2 (ISR p1 (writebit_arm v s)), irqs)
   \<and> (\<forall>s' irqs'. writebit v s irqs = Some (s', irqs') \<longrightarrow>
         state (onewire0 s') = OW0_IDLE \<and> \<not> driving s')"
proof -
  have drv: "driving (writebit_arm v s)"
    by (simp add: writebit_arm_eq driving_def or_and_same PIN_nonzero)
  moreover have "pulls_low (writebit_arm v s)" if "PORTB s AND PIN = 0"
    using that drv by (simp add: pulls_low_def) (simp add: writebit_arm_eq)
  moreover have "state (onewire0 s') = OW0_IDLE \<and> \<not> driving s'"
    if "writebit v s irqs = Some (s', irqs')" for s' irqs'
    using writebit_Some [OF that] by (simp add: not_driving_write_done) (simp add: write_done_def)
  ultimately show ?thesis
    by (simp add: writebit_arm_eq [symmetric] writebit_short write_slot_steps writebit_two)
       (simp add: writebit_def)
qed

theorem writebit_slot_witness:
  "PORTB (onewire0_init power_on) AND PIN = 0
   \<and> pulls_low (writebit_arm 1 (onewire0_init power_on))
   \<and> (\<exists>s'. writebit 1 (onewire0_init power_on) [0, PIN] = Some (s', [])
          \<and> state (onewire0 s') = OW0_IDLE \<and> \<not> driving s')"
proof -
  note slot = writebit_slot [of 1 "onewire0_init power_on" "[0, PIN]" 0 PIN]
  have p: "PORTB (onewire0_init power_on) AND PIN = 0"
    by (simp add: onewire0_init_def power_on_def)
  have "PORTB (onewire0_init power_on) AND PIN = 0
      \<longrightarrow> pulls_low (writebit_arm 1 (onewire0_init power_on))"
    using slot by (elim conjE)
  with p have low: "pulls_low (writebit_arm 1 (onewire0_init power_on))"
    by simp
  have ret: "\<forall>s' irqs'. writebit 1 (onewire0_init power_on) [0, PIN] = Some (s', irqs') \<longrightarrow>
      state (onewire0 s') = OW0_IDLE \<and> \<not> driving s'"
    using slot by (elim conjE)
  obtain s' where w: "writebit 1 (onewire0_init power_on) [0, PIN] = Some (s', [])"
    by (simp add: writebit_two)
  with ret have "state (onewire0 s') = OW0_IDLE \<and> \<not> driving s'"
    by blast
  with p low w show ?thesis
    by blast
qed

text \<open>
  Claim C6. \<^verbatim>\<open>_readbit\<close> resets the timer counter to zero, programs the compare value
  A, sets the state to read-low and makes the pin an output, which pulls the bus low when
  the output latch is clear; then it waits. The wait does not end before the third
  interrupt. The first interrupt leads to the sample state, the second stores the level of
  the pin at that moment in the sampled bit, and the third ends the slot. What the routine
  returns is that sampled bit: the level of the pin at the second interrupt of the slot.
  Whenever the routine returns, the state is idle and the pin does not drive the bus.
\<close>

theorem readbit_slot:
  "readbit_arm s =
     s\<lparr>TCNT0 := 0, OCR0A := GAP_A, DDRB := DDRB s OR PIN,
       onewire0 := (onewire0 s)\<lparr>state := OW0_READ_LOW\<rparr>\<rparr>
   \<and> driving (readbit_arm s)
   \<and> (PORTB s AND PIN = 0 \<longrightarrow> pulls_low (readbit_arm s))
   \<and> readbit s [] = None \<and> readbit s [p1] = None \<and> readbit s [p1, p2] = None
   \<and> state (onewire0 (ISR p1 (readbit_arm s))) = OW0_READ_SAMPLE
   \<and> state (onewire0 (ISR p2 (ISR p1 (readbit_arm s)))) = OW0_READ_RELEASE
   \<and> bit_ow (onewire0 (ISR p2 (ISR p1 (readbit_arm s)))) = level p2
   \<and> readbit s (p1 # p2 # p3 # irqs) =
       Some (level p2, ISR p3 (ISR p2 (ISR p1 (readbit_arm s))), irqs)
   \<and> (\<forall>r s' irqs'. readbit s irqs = Some (r, s', irqs') \<longrightarrow>
         state (onewire0 s') = OW0_IDLE \<and> \<not> driving s' \<and> r = bit_ow (onewire0 s')
         \<and> r = sampled irqs 0)"
proof -
  have drv: "driving (readbit_arm s)"
    by (simp add: readbit_arm_eq driving_def or_and_same PIN_nonzero)
  moreover have "pulls_low (readbit_arm s)" if "PORTB s AND PIN = 0"
    using that drv by (simp add: pulls_low_def) (simp add: readbit_arm_eq)
  moreover have "state (onewire0 s') = OW0_IDLE \<and> \<not> driving s' \<and> r = bit_ow (onewire0 s')
      \<and> r = sampled irqs 0"
    if "readbit s irqs = Some (r, s', irqs')" for r s' irqs'
    using readbit_Some [OF that]
    by (simp add: not_driving_read_done sampled_0) (simp add: read_done_def)
  ultimately show ?thesis
    by (simp add: readbit_arm_eq [symmetric] readbit_short read_slot_steps readbit_three)
qed

theorem readbit_slot_witness:
  "PORTB (onewire0_init power_on) AND PIN = 0
   \<and> pulls_low (readbit_arm (onewire0_init power_on))
   \<and> (\<exists>s'. readbit (onewire0_init power_on) [0, PIN, PIN] = Some (1, s', [])
          \<and> state (onewire0 s') = OW0_IDLE \<and> \<not> driving s' \<and> bit_ow (onewire0 s') = 1)"
proof -
  note slot = readbit_slot [of "onewire0_init power_on" 0 PIN PIN "[0, PIN, PIN]"]
  have p: "PORTB (onewire0_init power_on) AND PIN = 0"
    by (simp add: onewire0_init_def power_on_def)
  have "PORTB (onewire0_init power_on) AND PIN = 0
      \<longrightarrow> pulls_low (readbit_arm (onewire0_init power_on))"
    using slot by (elim conjE)
  with p have low: "pulls_low (readbit_arm (onewire0_init power_on))"
    by simp
  have ret: "\<forall>r s' irqs'. readbit (onewire0_init power_on) [0, PIN, PIN] = Some (r, s', irqs') \<longrightarrow>
      state (onewire0 s') = OW0_IDLE \<and> \<not> driving s' \<and> r = bit_ow (onewire0 s')
      \<and> r = sampled [0, PIN, PIN] 0"
    using slot by (elim conjE)
  obtain s' where w: "readbit (onewire0_init power_on) [0, PIN, PIN] = Some (1, s', [])"
    by (simp add: readbit_three level_def PIN_nonzero)
  with ret have "state (onewire0 s') = OW0_IDLE \<and> \<not> driving s' \<and> 1 = bit_ow (onewire0 s')"
    by blast
  with p low w show ?thesis
    by auto
qed

text \<open>
  Claim C9. The interrupt handler never makes the pin drive the bus: a step of the handler
  leaves the direction register as it is or clears the bit of the pin in it, and leaves
  the output latch alone, so the pin drives the bus (low) after a step only if it did so
  before. The same holds for a whole busy-wait. The pin is made an output by the
  straight-line parts of \<^verbatim>\<open>_writebit\<close> and \<^verbatim>\<open>_readbit\<close>, before their wait; starting
  the timer does not touch the pin and the initialisation releases it.
\<close>

theorem handler_never_pulls_low:
  "(DDRB (ISR pinb s) = DDRB s \<or> DDRB (ISR pinb s) = DDRB s AND NOT PIN)
   \<and> PORTB (ISR pinb s) = PORTB s
   \<and> (driving (ISR pinb s) \<longrightarrow> driving s)
   \<and> (pulls_low (ISR pinb s) \<longrightarrow> pulls_low s)
   \<and> (\<forall>s' irqs'. busy_wait s irqs = Some (s', irqs') \<and> driving s' \<longrightarrow> driving s)
   \<and> driving (writebit_arm v s) \<and> driving (readbit_arm s)
   \<and> DDRB (starttimer s) = DDRB s \<and> PORTB (starttimer s) = PORTB s
   \<and> \<not> driving (onewire0_init s)"
proof -
  have "DDRB (ISR pinb s) = DDRB s \<or> DDRB (ISR pinb s) = DDRB s AND NOT PIN"
    by (simp add: ISR_DDRB)
  moreover have "driving (ISR pinb s) \<longrightarrow> driving s"
    using driving_ISR by blast
  moreover have "pulls_low (ISR pinb s) \<longrightarrow> pulls_low s"
    using driving_ISR by (simp add: pulls_low_def ISR_frame) blast
  moreover have "\<forall>s' irqs'. busy_wait s irqs = Some (s', irqs') \<and> driving s' \<longrightarrow> driving s"
    using busy_wait_driving by blast
  moreover have "driving (writebit_arm v s)" "driving (readbit_arm s)"
    by (simp_all add: writebit_arm_eq readbit_arm_eq driving_def or_and_same PIN_nonzero)
  moreover have "\<not> driving (onewire0_init s)"
    by (simp add: onewire0_init_def driving_def and_not_and_same)
  ultimately show ?thesis
    by (simp only: ISR_frame starttimer_frame simp_thms)
qed

theorem handler_never_pulls_low_witness:
  "pulls_low (ISR 0 (pulllow (onewire0_init power_on)))
   \<and> pulls_low (pulllow (onewire0_init power_on))
   \<and> driving (writebit_arm 1 (onewire0_init power_on))
   \<and> \<not> driving (ISR 0 (writebit_arm 1 (onewire0_init power_on)))"
proof -
  have i: "ISR 0 (pulllow (onewire0_init power_on)) = pulllow (onewire0_init power_on)"
    by (simp add: ISR_def pulllow_def onewire0_init_def power_on_def)
  have "PORTB (pulllow (onewire0_init power_on)) AND PIN = 0"
    by (simp add: pulllow_def onewire0_init_def power_on_def)
  then have a: "pulls_low (ISR 0 (pulllow (onewire0_init power_on)))"
    by (simp add: i pulls_low_def driving_pulllow)
  have r: "\<not> driving (ISR 0 (writebit_arm 1 (onewire0_init power_on)))"
    by (simp add: driving_def ISR_DDRB writebit_arm_eq and_not_and_same)
  have "pulls_low (ISR 0 (pulllow (onewire0_init power_on)))
      \<longrightarrow> pulls_low (pulllow (onewire0_init power_on))"
    using handler_never_pulls_low [of 0 "pulllow (onewire0_init power_on)" "[]" 1]
    by (elim conjE)
  moreover have "driving (writebit_arm 1 (onewire0_init power_on))"
    using handler_never_pulls_low [of 0 "onewire0_init power_on" "[]" 1]
    by (elim conjE)
  ultimately show ?thesis
    using a r by simp
qed

section \<open>Byte transfers\<close>

lemma readbits_Some:
  assumes "readbits n s irqs = Some (rs, s', irqs')"
  shows "3 * n \<le> length irqs \<and> rs = map (sampled irqs) [0..<n] \<and> irqs' = drop (3 * n) irqs"
proof -
  have len: "3 * n \<le> length irqs"
    using assms
  proof (induction n arbitrary: s irqs rs)
    case 0
    then show ?case by simp
  next
    case (Suc n)
    from Suc.prems obtain r s1 irqs1 rs1 where
      r: "readbit s irqs = Some (r, s1, irqs1)" and rest: "readbits n s1 irqs1 = Some (rs1, s', irqs')"
      by (auto split: option.splits)
    from r have "3 \<le> length irqs" "irqs1 = drop 3 irqs"
      by (auto dest: readbit_Some)
    with Suc.IH [OF rest] show ?case by simp
  qed
  with readbits_run [of n irqs s] assms show ?thesis
    by auto
qed

lemma shift_in_less: "shift_in byte r < 0x80"
proof -
  have "drop_bit 1 w < 0x80" for w :: "8 word"
  proof -
    have "unat w < 256"
      using unsigned_less [of w, where ?'a = nat] by simp
    then show ?thesis
      by (simp add: word_less_nat_alt drop_bit_eq_div unat_div)
  qed
  then show ?thesis
    by (simp add: shift_in_def)
qed

lemma bit_assembled:
  "length rs = 8 \<Longrightarrow> bit (foldl shift_in 0 rs) k \<longleftrightarrow> k < 7 \<and> rs ! Suc k \<noteq> 0"
  by (simp add: bit_foldl_shift_in)

lemma assembled_less: "length rs = 8 \<Longrightarrow> foldl shift_in 0 rs < 0x80"
proof -
  assume "length rs = 8"
  then obtain ys y where "rs = ys @ [y]"
    by (cases rs rule: rev_cases) auto
  then show ?thesis
    by (simp add: shift_in_less)
qed

lemma readbyte_Some:
  assumes "onewire0_readbyte s irqs = Some (byte, s', irqs')"
  shows "24 \<le> length irqs \<and> byte = foldl shift_in 0 (map (sampled irqs) [0..<8])
         \<and> irqs' = drop 24 irqs"
proof -
  from assms obtain rs where
    rb: "readbits 8 (starttimer s) irqs = Some (rs, s', irqs')" and b: "byte = foldl shift_in 0 rs"
    by (auto simp: readbyte_readbits split: option.splits)
  from readbits_Some [OF rb] b show ?thesis
    by simp
qed

lemma readbyte_run:
  assumes "24 \<le> length irqs"
  shows "\<exists>s'. onewire0_readbyte s irqs =
           Some (foldl shift_in 0 (map (sampled irqs) [0..<8]), s', drop 24 irqs)"
proof -
  from assms have "3 * 8 \<le> length irqs" by simp
  from readbits_run [OF this, of "starttimer s"] show ?thesis
    by (auto simp: readbyte_readbits)
qed

lemma readbyte_Some_idle:
  assumes "onewire0_readbyte s irqs = Some (byte, s', irqs')"
    and "state (onewire0 s) = OW0_IDLE"
  shows "state (onewire0 s') = OW0_IDLE"
proof -
  from assms(1) obtain rs where
    "readbits 8 (starttimer s) irqs = Some (rs, s', irqs')"
    by (auto simp: readbyte_readbits split: option.splits)
  then show ?thesis
    by (rule readbits_Some_idle) (simp add: starttimer_frame assms(2))
qed

lemma writebyte_Some_idle:
  assumes "onewire0_writebyte v s irqs = Some (s', irqs')"
    and "state (onewire0 s) = OW0_IDLE"
  shows "state (onewire0 s') = OW0_IDLE"
  using assms(1) unfolding writebyte_writebits
  by (rule writebits_Some_idle) (simp add: starttimer_frame assms(2))

lemma writebyte_run:
  assumes "16 \<le> length irqs"
  shows "\<exists>s'. onewire0_writebyte v s irqs = Some (s', drop 16 irqs)"
proof -
  from assms have "2 * length (lsb_first v) \<le> length irqs"
    by (simp add: length_lsb_first)
  from writebits_run [OF this, of "starttimer s"] show ?thesis
    by (simp add: writebyte_writebits length_lsb_first)
qed

lemma assemble_lsb_first: "foldl shift_in 0 (lsb_first v) = drop_bit 1 v"
proof (rule bit_eqI)
  fix k
  show "bit (foldl shift_in 0 (lsb_first v)) k = bit (drop_bit 1 v) k"
  proof (cases "k < 7")
    case True
    then have "Suc k < 8" by simp
    with True show ?thesis
      by (simp add: bit_assembled length_lsb_first lsb_first_nth bit_drop_bit_eq)
  next
    case False
    then have "\<not> bit v (Suc k)"
      by (auto dest: bit_imp_le_length)
    with False show ?thesis
      by (simp add: bit_assembled length_lsb_first bit_drop_bit_eq)
  qed
qed

lemma norm_lsb_first: "map (\<lambda>b. if b \<noteq> 0 then 1 else 0) (lsb_first v) = lsb_first v"
  by (simp add: lsb_first_def)

lemma readbyte_loopback:
  "length bs = 8 \<Longrightarrow>
     map_option fst (onewire0_readbyte s (loopback bs)) =
       Some (foldl shift_in 0 (map (\<lambda>b. if b \<noteq> 0 then 1 else 0) bs))"
  using readbits_loopback [of bs "starttimer s"] by (auto simp: readbyte_readbits)

lemma sampled_update_first: "sampled (irqs[Suc 0 := p]) (Suc k) = sampled irqs (Suc k)"
  by (simp add: sampled_def)

lemma assembled_ignores_first:
  "foldl shift_in 0 (map (sampled (irqs[Suc 0 := p])) [0..<8])
     = foldl shift_in 0 (map (sampled irqs) [0..<8])"
proof (rule bit_eqI)
  fix k
  have "map (sampled js) [0..<8] ! Suc k = sampled js (Suc k)" if "k < 7" for js
    using that by (simp del: upt_Suc)
  then show "bit (foldl shift_in 0 (map (sampled (irqs[Suc 0 := p])) [0..<8])) k
      = bit (foldl shift_in 0 (map (sampled irqs) [0..<8])) k"
    by (auto simp: bit_assembled sampled_update_first)
qed

text \<open>
  The observed routines compute what the plain ones compute: forgetting the record of the
  bus gives \<^verbatim>\<open>_writebit\<close> and \<^verbatim>\<open>onewire0_writebyte\<close> as modelled above.
\<close>

lemma busy_wait_traced_forget: "map_option snd (busy_wait_traced s irqs) = busy_wait s irqs"
  by (induction s irqs rule: busy_wait.induct) (auto split: option.splits)

lemma writebit_traced_forget: "map_option snd (writebit_traced v s irqs) = writebit v s irqs"
  by (simp add: writebit_traced_def writebit_def busy_wait_traced_forget)

lemma writebyte_loop_traced_forget:
  "map_option snd (writebyte_loop_traced i byte tr s irqs) = writebyte_loop i byte s irqs"
proof (induction i byte tr s irqs rule: writebyte_loop_traced.induct)
  case (1 i byte tr s irqs)
  show ?case
  proof (cases "i < 8")
    case False
    then show ?thesis
      by (subst writebyte_loop_traced.simps, subst writebyte_loop.simps) simp
  next
    case True
    show ?thesis
    proof (cases "writebit_traced (byte AND 1) s irqs")
      case None
      then have "writebit (byte AND 1) s irqs = None"
        using writebit_traced_forget [of "byte AND 1" s irqs] by simp
      with None True show ?thesis
        by (subst writebyte_loop_traced.simps, subst writebyte_loop.simps) simp
    next
      case (Some x)
      obtain phs s' irqs' where x: "x = (phs, s', irqs')" by (cases x)
      from Some x have "writebit (byte AND 1) s irqs = Some (s', irqs')"
        using writebit_traced_forget [of "byte AND 1" s irqs] by simp
      with "1.IH" [OF True Some x [symmetric] refl] True Some x show ?thesis
        by (subst writebyte_loop_traced.simps, subst writebyte_loop.simps) simp
    qed
  qed
qed

lemma writebyte_traced_forget:
  "map_option snd (onewire0_writebyte_traced byte s irqs) = onewire0_writebyte byte s irqs"
  by (simp add: onewire0_writebyte_traced_def onewire0_writebyte_def writebyte_loop_traced_forget)

lemma busy_wait_traced_idle:
  "state (onewire0 s) = OW0_IDLE \<Longrightarrow> busy_wait_traced s irqs = Some ([], s, irqs)"
  by (cases irqs) simp_all

lemma write_slot_phases:
  "state (onewire0 (writebit_arm v s)) \<noteq> OW0_IDLE"
  "driving (writebit_arm v s)"
  "OCR0A (writebit_arm v s) = (if v \<noteq> 0 then GAP_A else GAP_C)"
  "\<not> driving (ISR p1 (writebit_arm v s))"
  "OCR0A (ISR p1 (writebit_arm v s)) = (if v \<noteq> 0 then GAP_B else GAP_D)"
  "state (onewire0 (write_done v s)) = OW0_IDLE"
  by (simp_all add: writebit_arm_eq ISR_def release_def write_done_def driving_def or_and_same
      and_not_and_same PIN_nonzero)

lemma writebit_traced_short:
  "writebit_traced v s [] = None" "writebit_traced v s [p] = None"
  by (simp_all add: writebit_traced_def writebit_arm_eq ISR_def release_def)

lemma writebit_traced_two:
  "writebit_traced v s (p1 # p2 # irqs) =
     Some ([(True, if v \<noteq> 0 then GAP_A else GAP_C), (False, if v \<noteq> 0 then GAP_B else GAP_D)],
           write_done v s, irqs)"
  by (simp add: writebit_traced_def busy_wait_traced_idle write_slot_phases write_slot_steps)

lemma writebit_traced_len:
  assumes "2 \<le> length irqs"
  shows "writebit_traced v s irqs =
     Some ([(True, if v \<noteq> 0 then GAP_A else GAP_C), (False, if v \<noteq> 0 then GAP_B else GAP_D)],
           write_done v s, drop 2 irqs)"
proof -
  from assms obtain p1 p2 where "irqs = p1 # p2 # drop 2 irqs"
    using list_two by blast
  then show ?thesis using writebit_traced_two by metis
qed

lemma writebit_traced_None:
  assumes "length irqs < 2"
  shows "writebit_traced v s irqs = None"
proof -
  from assms have "irqs = [] \<or> (\<exists>p. irqs = [p])"
    by (cases irqs; cases "tl irqs") auto
  then show ?thesis by (auto simp: writebit_traced_short)
qed

lemma write_done_twice: "write_done v (write_done u s) = write_done v s"
  by (simp add: write_done_def and_not_twice)

lemma writebyte_loop_traced_run:
  "2 * (8 - unat i) \<le> length irqs \<Longrightarrow>
     writebyte_loop_traced i byte tr s irqs =
       Some (tr @ map (\<lambda>k. (drop_bit k byte AND 1,
                              if bit byte k then [(True, GAP_A), (False, GAP_B)]
                              else [(True, GAP_C), (False, GAP_D)])) [0..<8 - unat i],
             if i < 8 then write_done (drop_bit (7 - unat i) byte AND 1) s else s,
             drop (2 * (8 - unat i)) irqs)"
proof (induction i byte tr s irqs rule: writebyte_loop_traced.induct)
  case (1 i byte tr s irqs)
  show ?case
  proof (cases "i < 8")
    case False
    then have "8 - unat i = 0"
      by (simp add: word_less_nat_alt)
    with False show ?thesis
      by (subst writebyte_loop_traced.simps) simp
  next
    case True
    then have u: "unat (i + 1) = Suc (unat i)" and l: "unat i < 8"
      by (simp_all add: unat_succ8 word_less_nat_alt)
    then have n: "8 - unat i = Suc (8 - unat (i + 1))"
      by simp
    with "1.prems" have two: "2 \<le> length irqs"
      and more: "2 * (8 - unat (i + 1)) \<le> length (drop 2 irqs)"
      by simp_all
    let ?phs = "[(True, if byte AND 1 \<noteq> 0 then GAP_A else GAP_C),
                 (False, if byte AND 1 \<noteq> 0 then GAP_B else GAP_D)]"
    have w: "writebit_traced (byte AND 1) s irqs
        = Some (?phs, write_done (byte AND 1) s, drop 2 irqs)"
      by (rule writebit_traced_len [OF two])
    have fin: "(if i + 1 < 8
          then write_done (drop_bit (7 - unat (i + 1)) (drop_bit 1 byte) AND 1)
                 (write_done (byte AND 1) s)
          else write_done (byte AND 1) s)
        = write_done (drop_bit (7 - unat i) byte AND 1) s"
    proof (cases "i + 1 < 8")
      case True
      then have "unat i < 7"
        by (simp add: word_less_nat_alt u)
      then have "7 - unat (i + 1) + 1 = 7 - unat i"
        by (simp add: u)
      with True show ?thesis
        by (simp add: write_done_twice)
    next
      case False
      with l have "unat i = 7"
        by (simp add: word_less_nat_alt u)
      with False show ?thesis
        by simp
    qed
    note step = "1.IH" [OF True w refl refl more, unfolded fin]
    from step True w show ?thesis
      by (subst writebyte_loop_traced.simps)
         (simp add: n upt_shift and_one_bit0 bit_drop_bit_eq add.commute del: upt_Suc)
  qed
qed

lemma writebyte_loop_traced_None:
  "length irqs < 2 * (8 - unat i) \<Longrightarrow> writebyte_loop_traced i byte tr s irqs = None"
proof (induction i byte tr s irqs rule: writebyte_loop_traced.induct)
  case (1 i byte tr s irqs)
  from "1.prems" have "8 - unat i \<noteq> 0" by auto
  then have True: "i < 8"
    by (simp add: word_less_nat_alt)
  then have n: "8 - unat i = Suc (8 - unat (i + 1))"
    by (simp add: unat_succ8 word_less_nat_alt)
  show ?case
  proof (cases "2 \<le> length irqs")
    case False
    then have "writebit_traced (byte AND 1) s irqs = None"
      by (simp add: writebit_traced_None)
    with True show ?thesis
      by (subst writebyte_loop_traced.simps) simp
  next
    case two: True
    let ?phs = "[(True, if byte AND 1 \<noteq> 0 then GAP_A else GAP_C),
                 (False, if byte AND 1 \<noteq> 0 then GAP_B else GAP_D)]"
    have w: "writebit_traced (byte AND 1) s irqs
        = Some (?phs, write_done (byte AND 1) s, drop 2 irqs)"
      by (rule writebit_traced_len [OF two])
    from "1.prems" two n have "length (drop 2 irqs) < 2 * (8 - unat (i + 1))"
      by simp
    from "1.IH" [OF True w refl refl this] True w show ?thesis
      by (subst writebyte_loop_traced.simps) simp
  qed
qed

lemma writebyte_traced_run:
  assumes "16 \<le> length irqs"
  shows "onewire0_writebyte_traced byte s irqs =
     Some (map (\<lambda>k. (drop_bit k byte AND 1,
                      if bit byte k then [(True, 6), (False, 64)] else [(True, 60), (False, 10)]))
             [0..<8],
           write_done (drop_bit 7 byte AND 1) (starttimer s), drop 16 irqs)"
  using assms
  by (simp add: onewire0_writebyte_traced_def writebyte_loop_traced_run GAP_A_def GAP_B_def
      GAP_C_def GAP_D_def del: upt_Suc)

lemma writebyte_traced_None:
  "length irqs < 16 \<Longrightarrow> onewire0_writebyte_traced byte s irqs = None"
  by (simp add: onewire0_writebyte_traced_def writebyte_loop_traced_None)

text \<open>
  Claim C3. \<^verbatim>\<open>onewire0_writebyte\<close> starts the timer and then calls \<^verbatim>\<open>_writebit\<close>
  exactly eight times, least significant bit first: the \<open>k\<close>-th call, counted from 0, is
  given bit \<open>k\<close> of the byte, which is the low bit of the byte moved right \<open>k\<close> times.
  On the bus the slot of a bit that is 1 shows the pin driving for the interval 6 and
  released for the interval 64, the slot of a bit that is 0 shows it driving for 60 and
  released for 10. Eight slots take sixteen interrupts: with sixteen or more the routine
  returns, leaves the others, and leaves the machine as the last slot and the start of the
  timer have put it; with fewer it does not return. For the byte \<^verbatim>\<open>0xA5\<close> the calls
  are given 1, 0, 1, 0, 0, 1, 0, 1 in this order and the low pulses have the widths 6, 60,
  6, 60, 60, 6, 60, 6.
\<close>

theorem writebyte_lsb_first:
  "(16 \<le> length irqs \<longrightarrow>
      onewire0_writebyte_traced byte s irqs =
        Some (map (\<lambda>k. (drop_bit k byte AND 1,
                         if bit byte k then [(True, 6), (False, 64)]
                         else [(True, 60), (False, 10)])) [0..<8],
              write_done (drop_bit 7 byte AND 1) (starttimer s), drop 16 irqs))
   \<and> (length irqs < 16 \<longrightarrow> onewire0_writebyte_traced byte s irqs = None)
   \<and> (\<forall>tr s' irqs'. onewire0_writebyte_traced byte s irqs = Some (tr, s', irqs') \<longrightarrow>
         length tr = 8
         \<and> (\<forall>k<8. fst (tr ! k) = drop_bit k byte AND 1
                  \<and> fst (tr ! k) = (if bit byte k then 1 else 0)
                  \<and> snd (tr ! k) = (if bit byte k then [(True, 6), (False, 64)]
                                     else [(True, 60), (False, 10)])))
   \<and> (16 \<le> length irqs \<longrightarrow>
        onewire0_writebyte_traced 0xA5 s irqs =
          Some ([(1, [(True, 6), (False, 64)]), (0, [(True, 60), (False, 10)]),
                 (1, [(True, 6), (False, 64)]), (0, [(True, 60), (False, 10)]),
                 (0, [(True, 60), (False, 10)]), (1, [(True, 6), (False, 64)]),
                 (0, [(True, 60), (False, 10)]), (1, [(True, 6), (False, 64)])],
                write_done 1 (starttimer s), drop 16 irqs))"
proof -
  have ret: "length tr = 8
      \<and> (\<forall>k<8. fst (tr ! k) = drop_bit k byte AND 1
               \<and> fst (tr ! k) = (if bit byte k then 1 else 0)
               \<and> snd (tr ! k) = (if bit byte k then [(True, 6), (False, 64)]
                                  else [(True, 60), (False, 10)]))"
    if "onewire0_writebyte_traced byte s irqs = Some (tr, s', irqs')" for tr s' irqs'
  proof -
    from that have "16 \<le> length irqs"
      using writebyte_traced_None [of irqs byte s] by (cases "length irqs < 16") simp_all
    from writebyte_traced_run [OF this, of byte s] that
    have tr: "tr = map (\<lambda>k. (drop_bit k byte AND 1,
                         if bit byte k then [(True, 6), (False, 64)]
                         else [(True, 60), (False, 10)])) [0..<8]"
      by simp
    have "drop_bit k byte AND 1 = (if bit byte k then 1 else 0)" for k
      by (simp add: and_one_bit0 bit_drop_bit_eq)
    then show ?thesis
      unfolding tr by (simp del: upt_Suc)
  qed
  have a5: "onewire0_writebyte_traced 0xA5 s irqs =
          Some ([(1, [(True, 6), (False, 64)]), (0, [(True, 60), (False, 10)]),
                 (1, [(True, 6), (False, 64)]), (0, [(True, 60), (False, 10)]),
                 (0, [(True, 60), (False, 10)]), (1, [(True, 6), (False, 64)]),
                 (0, [(True, 60), (False, 10)]), (1, [(True, 6), (False, 64)])],
                write_done 1 (starttimer s), drop 16 irqs)"
    if "16 \<le> length irqs"
    by (simp add: writebyte_traced_run [OF that] upt_rec)
  have run: "16 \<le> length irqs \<longrightarrow>
      onewire0_writebyte_traced byte s irqs =
        Some (map (\<lambda>k. (drop_bit k byte AND 1,
                         if bit byte k then [(True, 6), (False, 64)]
                         else [(True, 60), (False, 10)])) [0..<8],
              write_done (drop_bit 7 byte AND 1) (starttimer s), drop 16 irqs)"
    using writebyte_traced_run by blast
  have short: "length irqs < 16 \<longrightarrow> onewire0_writebyte_traced byte s irqs = None"
    using writebyte_traced_None by blast
  from run short ret a5 show ?thesis
    by blast
qed

theorem writebyte_lsb_first_witness:
  "(16::nat) \<le> length (replicate 16 (0::8 word))
   \<and> onewire0_writebyte_traced 0xA5 (onewire0_init power_on) (replicate 16 0) =
       Some ([(1, [(True, 6), (False, 64)]), (0, [(True, 60), (False, 10)]),
              (1, [(True, 6), (False, 64)]), (0, [(True, 60), (False, 10)]),
              (0, [(True, 60), (False, 10)]), (1, [(True, 6), (False, 64)]),
              (0, [(True, 60), (False, 10)]), (1, [(True, 6), (False, 64)])],
             write_done 1 (starttimer (onewire0_init power_on)), [])
   \<and> onewire0_writebyte_traced 0xA5 (onewire0_init power_on) (replicate 15 0) = None"
proof -
  note w = writebyte_lsb_first [of "replicate 16 0" "0xA5" "onewire0_init power_on"]
  note n = writebyte_lsb_first [of "replicate 15 0" "0xA5" "onewire0_init power_on"]
  have "16 \<le> length (replicate 16 (0::8 word)) \<longrightarrow>
        onewire0_writebyte_traced 0xA5 (onewire0_init power_on) (replicate 16 0) =
          Some ([(1, [(True, 6), (False, 64)]), (0, [(True, 60), (False, 10)]),
                 (1, [(True, 6), (False, 64)]), (0, [(True, 60), (False, 10)]),
                 (0, [(True, 60), (False, 10)]), (1, [(True, 6), (False, 64)]),
                 (0, [(True, 60), (False, 10)]), (1, [(True, 6), (False, 64)])],
                write_done 1 (starttimer (onewire0_init power_on)), drop 16 (replicate 16 0))"
    using w by (elim conjE)
  then have a: "onewire0_writebyte_traced 0xA5 (onewire0_init power_on) (replicate 16 0) =
          Some ([(1, [(True, 6), (False, 64)]), (0, [(True, 60), (False, 10)]),
                 (1, [(True, 6), (False, 64)]), (0, [(True, 60), (False, 10)]),
                 (0, [(True, 60), (False, 10)]), (1, [(True, 6), (False, 64)]),
                 (0, [(True, 60), (False, 10)]), (1, [(True, 6), (False, 64)])],
                write_done 1 (starttimer (onewire0_init power_on)), [])"
    by simp
  have "length (replicate 15 (0::8 word)) < 16 \<longrightarrow>
      onewire0_writebyte_traced 0xA5 (onewire0_init power_on) (replicate 15 0) = None"
    using n by (elim conjE)
  then have b: "onewire0_writebyte_traced 0xA5 (onewire0_init power_on) (replicate 15 0) = None"
    by simp
  from a b show ?thesis by simp
qed

text \<open>
  Claim C8. When the operation state is idle on entry, it is idle whenever
  \<^verbatim>\<open>_writebit\<close>, \<^verbatim>\<open>_readbit\<close>, \<^verbatim>\<open>onewire0_writebyte\<close> or \<^verbatim>\<open>onewire0_readbyte\<close>
  returns, and each of them does return when the handler runs for every interval of its
  slots: two interrupts for a write slot, three for a read slot, sixteen and twenty-four
  for the byte routines. Inside a byte routine the state is idle after any number of
  slots, so every bit routine is entered in the idle state. A busy-wait returns in the
  idle state only, whatever state it starts in.
\<close>

theorem idle_before_and_after:
  assumes "state (onewire0 s) = OW0_IDLE"
  shows "(\<forall>s' irqs'. writebit v s irqs = Some (s', irqs') \<longrightarrow> state (onewire0 s') = OW0_IDLE)
   \<and> (\<forall>r s' irqs'. readbit s irqs = Some (r, s', irqs') \<longrightarrow> state (onewire0 s') = OW0_IDLE)
   \<and> (\<forall>s' irqs'. onewire0_writebyte v s irqs = Some (s', irqs') \<longrightarrow>
         state (onewire0 s') = OW0_IDLE)
   \<and> (\<forall>r s' irqs'. onewire0_readbyte s irqs = Some (r, s', irqs') \<longrightarrow>
         state (onewire0 s') = OW0_IDLE)
   \<and> (2 \<le> length irqs \<longrightarrow> (\<exists>s'. writebit v s irqs = Some (s', drop 2 irqs)))
   \<and> (3 \<le> length irqs \<longrightarrow> (\<exists>r s'. readbit s irqs = Some (r, s', drop 3 irqs)))
   \<and> (16 \<le> length irqs \<longrightarrow> (\<exists>s'. onewire0_writebyte v s irqs = Some (s', drop 16 irqs)))
   \<and> (24 \<le> length irqs \<longrightarrow> (\<exists>r s'. onewire0_readbyte s irqs = Some (r, s', drop 24 irqs)))
   \<and> (\<forall>vs s' irqs'. writebits vs (starttimer s) irqs = Some (s', irqs') \<longrightarrow>
         state (onewire0 s') = OW0_IDLE)
   \<and> (\<forall>n rs s' irqs'. readbits n (starttimer s) irqs = Some (rs, s', irqs') \<longrightarrow>
         state (onewire0 s') = OW0_IDLE)
   \<and> (\<forall>t s' irqs'. busy_wait t irqs = Some (s', irqs') \<longrightarrow> state (onewire0 s') = OW0_IDLE)"
proof -
  have st: "state (onewire0 (starttimer s)) = OW0_IDLE"
    by (simp add: starttimer_frame assms)
  have "state (onewire0 s') = OW0_IDLE" if "writebit v s irqs = Some (s', irqs')" for s' irqs'
    using that unfolding writebit_def by (rule busy_wait_Some_idle)
  moreover have "state (onewire0 s') = OW0_IDLE"
    if "readbit s irqs = Some (r, s', irqs')" for r s' irqs'
    using readbit_Some [OF that] by (simp add: read_done_def)
  moreover have "state (onewire0 s') = OW0_IDLE"
    if "onewire0_writebyte v s irqs = Some (s', irqs')" for s' irqs'
    using that assms by (rule writebyte_Some_idle)
  moreover have "state (onewire0 s') = OW0_IDLE"
    if "onewire0_readbyte s irqs = Some (r, s', irqs')" for r s' irqs'
    using that assms by (rule readbyte_Some_idle)
  moreover have "\<exists>s'. writebit v s irqs = Some (s', drop 2 irqs)" if "2 \<le> length irqs"
    using writebit_len [OF that] by blast
  moreover have "\<exists>r s'. readbit s irqs = Some (r, s', drop 3 irqs)" if "3 \<le> length irqs"
    using readbit_len [OF that] by blast
  moreover have "\<exists>s'. onewire0_writebyte v s irqs = Some (s', drop 16 irqs)"
    if "16 \<le> length irqs"
    using that by (rule writebyte_run)
  moreover have "\<exists>r s'. onewire0_readbyte s irqs = Some (r, s', drop 24 irqs)"
    if "24 \<le> length irqs"
    using readbyte_run [OF that] by blast
  moreover have "state (onewire0 s') = OW0_IDLE"
    if "writebits vs (starttimer s) irqs = Some (s', irqs')" for vs s' irqs'
    using that st by (rule writebits_Some_idle)
  moreover have "state (onewire0 s') = OW0_IDLE"
    if "readbits n (starttimer s) irqs = Some (rs, s', irqs')" for n rs s' irqs'
    using that st by (rule readbits_Some_idle)
  moreover have "state (onewire0 s') = OW0_IDLE"
    if "busy_wait t irqs = Some (s', irqs')" for t s' irqs'
    using that by (rule busy_wait_Some_idle)
  ultimately show ?thesis
    by blast
qed

theorem idle_before_and_after_witness:
  "state (onewire0 (onewire0_init power_on)) = OW0_IDLE
   \<and> (\<exists>s'. onewire0_writebyte 0xA5 (onewire0_init power_on) (replicate 24 0) = Some (s', replicate 8 0)
          \<and> state (onewire0 s') = OW0_IDLE)
   \<and> (\<exists>r s'. onewire0_readbyte (onewire0_init power_on) (replicate 24 0) = Some (r, s', [])
          \<and> state (onewire0 s') = OW0_IDLE)"
proof -
  have i: "state (onewire0 (onewire0_init power_on)) = OW0_IDLE"
    by (simp add: onewire0_init_def)
  note t = idle_before_and_after [OF i, of "0xA5" "replicate 24 0"]
  have w1: "16 \<le> length (replicate 24 (0::8 word)) \<longrightarrow>
      (\<exists>s'. onewire0_writebyte 0xA5 (onewire0_init power_on) (replicate 24 0)
         = Some (s', drop 16 (replicate 24 0)))"
    using t by (elim conjE)
  have w2: "\<forall>s' irqs'. onewire0_writebyte 0xA5 (onewire0_init power_on) (replicate 24 0)
      = Some (s', irqs') \<longrightarrow> state (onewire0 s') = OW0_IDLE"
    using t by (elim conjE)
  have r1: "24 \<le> length (replicate 24 (0::8 word)) \<longrightarrow>
      (\<exists>r s'. onewire0_readbyte (onewire0_init power_on) (replicate 24 0)
         = Some (r, s', drop 24 (replicate 24 0)))"
    using t by (elim conjE)
  have r2: "\<forall>r s' irqs'. onewire0_readbyte (onewire0_init power_on) (replicate 24 0)
      = Some (r, s', irqs') \<longrightarrow> state (onewire0 s') = OW0_IDLE"
    using t by (elim conjE)
  have d: "drop 16 (replicate 24 (0::8 word)) = replicate 8 0"
    by simp
  from w1 obtain s' where
    "onewire0_writebyte 0xA5 (onewire0_init power_on) (replicate 24 0) = Some (s', replicate 8 0)"
    unfolding d by auto
  with w2 have a: "\<exists>s'. onewire0_writebyte 0xA5 (onewire0_init power_on) (replicate 24 0)
      = Some (s', replicate 8 0) \<and> state (onewire0 s') = OW0_IDLE"
    by blast
  from r1 obtain r s'' where
    "onewire0_readbyte (onewire0_init power_on) (replicate 24 0) = Some (r, s'', [])"
    by auto
  with r2 have b: "\<exists>r s'. onewire0_readbyte (onewire0_init power_on) (replicate 24 0)
      = Some (r, s', []) \<and> state (onewire0 s') = OW0_IDLE"
    by blast
  from i a b show ?thesis by blast
qed

text \<open>
  Claim C10. Whatever the eight read slots sample, the byte that \<^verbatim>\<open>onewire0_readbyte\<close>
  returns is below \<^verbatim>\<open>0x80\<close>: its bit 7 is clear, because the accumulator moves right
  once more after the last bit has been put in. Bit \<open>k\<close> of the result, for \<open>k\<close> below
  7, is the bit sampled by slot \<open>k + 1\<close>; so the bit of the eighth slot is at position 6,
  and the bit of the first slot is not in the result at all: changing what the bus shows
  when the first slot samples does not change the byte returned. With twenty-four
  interrupts the routine does return.
\<close>

theorem readbyte_top_bit_clear:
  "(\<forall>byte s' irqs'. onewire0_readbyte s irqs = Some (byte, s', irqs') \<longrightarrow>
       byte < 0x80 \<and> \<not> bit byte 7
       \<and> (\<forall>k. bit byte k \<longleftrightarrow> k < 7 \<and> sampled irqs (Suc k) \<noteq> 0)
       \<and> (bit byte 6 \<longleftrightarrow> sampled irqs 7 \<noteq> 0))
   \<and> (24 \<le> length irqs \<longrightarrow>
        (\<exists>byte s'. onewire0_readbyte s irqs = Some (byte, s', drop 24 irqs)))
   \<and> (24 \<le> length irqs \<longrightarrow>
        (\<forall>p. map_option fst (onewire0_readbyte s (irqs[1 := p]))
              = map_option fst (onewire0_readbyte s irqs)))"
proof -
  have ret: "byte < 0x80 \<and> \<not> bit byte 7
      \<and> (\<forall>k. bit byte k \<longleftrightarrow> k < 7 \<and> sampled irqs (Suc k) \<noteq> 0)
      \<and> (bit byte 6 \<longleftrightarrow> sampled irqs 7 \<noteq> 0)"
    if "onewire0_readbyte s irqs = Some (byte, s', irqs')" for byte s' irqs'
  proof -
    from readbyte_Some [OF that]
    have b: "byte = foldl shift_in 0 (map (sampled irqs) [0..<8])"
      by simp
    have n: "map (sampled irqs) [0..<8] ! Suc k = sampled irqs (Suc k)" if "k < 7" for k
      using that by (simp del: upt_Suc)
    have bits: "bit byte k \<longleftrightarrow> k < 7 \<and> sampled irqs (Suc k) \<noteq> 0" for k
      unfolding b using n [of k] by (auto simp: bit_assembled)
    have "byte < 0x80"
      unfolding b by (rule assembled_less) simp
    with bits show ?thesis
      using bits [of 6] by simp
  qed
  have run: "\<exists>byte s'. onewire0_readbyte s irqs = Some (byte, s', drop 24 irqs)"
    if "24 \<le> length irqs"
    using readbyte_run [OF that] by blast
  have first: "map_option fst (onewire0_readbyte s (irqs[1 := p]))
      = map_option fst (onewire0_readbyte s irqs)"
    if "24 \<le> length irqs" for p
  proof -
    from that have "24 \<le> length (irqs[1 := p])" by simp
    from readbyte_run [OF this, of s] readbyte_run [OF that, of s] show ?thesis
      by (auto simp: assembled_ignores_first)
  qed
  from ret run first show ?thesis
    by blast
qed

theorem readbyte_top_bit_clear_witness:
  "(24::nat) \<le> length (replicate 24 PIN)
   \<and> sampled (replicate 24 PIN) 7 \<noteq> 0
   \<and> (\<exists>byte s'. onewire0_readbyte (onewire0_init power_on) (replicate 24 PIN) = Some (byte, s', [])
          \<and> byte < 0x80 \<and> \<not> bit byte 7 \<and> bit byte 6)"
proof -
  note t = readbyte_top_bit_clear [of "onewire0_init power_on" "replicate 24 PIN"]
  have s7: "sampled (replicate 24 PIN) 7 \<noteq> 0"
    by (simp add: sampled_def level_def PIN_nonzero)
  have r1: "24 \<le> length (replicate 24 PIN) \<longrightarrow>
      (\<exists>byte s'. onewire0_readbyte (onewire0_init power_on) (replicate 24 PIN)
         = Some (byte, s', drop 24 (replicate 24 PIN)))"
    using t by (elim conjE)
  have r2: "\<forall>byte s' irqs'. onewire0_readbyte (onewire0_init power_on) (replicate 24 PIN)
      = Some (byte, s', irqs') \<longrightarrow>
       byte < 0x80 \<and> \<not> bit byte 7
       \<and> (\<forall>k. bit byte k \<longleftrightarrow> k < 7 \<and> sampled (replicate 24 PIN) (Suc k) \<noteq> 0)
       \<and> (bit byte 6 \<longleftrightarrow> sampled (replicate 24 PIN) 7 \<noteq> 0)"
    using t by (elim conjE)
  from r1 obtain byte s' where
    rb: "onewire0_readbyte (onewire0_init power_on) (replicate 24 PIN) = Some (byte, s', [])"
    by auto
  with r2 have "byte < 0x80 \<and> \<not> bit byte 7
      \<and> (bit byte 6 \<longleftrightarrow> sampled (replicate 24 PIN) 7 \<noteq> 0)"
    by blast
  with s7 rb show ?thesis
    by auto
qed

text \<open>
  Claim C1, a byte read back from a peer that sends the bits of \<open>v\<close> the way
  \<^verbatim>\<open>onewire0_writebyte\<close> sends them, is \<open>v\<close> again. The code does not do this:
  \<^verbatim>\<open>onewire0_writebyte\<close> sends the bits of \<open>v\<close> least significant first, and
  \<^verbatim>\<open>onewire0_readbyte\<close>, reading these bits from the peer, returns \<open>v\<close> moved right by
  one bit. For \<^verbatim>\<open>0xA5\<close> it returns \<^verbatim>\<open>0x52\<close>.
\<close>

theorem roundtrip_shifts_right:
  "map_option fst (onewire0_readbyte s (loopback (lsb_first v))) = Some (drop_bit 1 v)
   \<and> map_option fst (onewire0_readbyte s (loopback (lsb_first 0xA5))) = Some 0x52
   \<and> onewire0_writebyte v t irqs = writebits (lsb_first v) (starttimer t) irqs"
proof -
  have "map_option fst (onewire0_readbyte s (loopback (lsb_first w))) = Some (drop_bit 1 w)" for w
    by (simp add: readbyte_loopback length_lsb_first norm_lsb_first assemble_lsb_first)
  from this [of v] this [of "0xA5"] show ?thesis
    by (simp add: writebyte_writebits)
qed

text \<open>
  Claim C2, the first bit received becomes the least significant bit of the byte that
  \<^verbatim>\<open>onewire0_readbyte\<close> returns. The routine does run exactly eight read slots and does
  apply the loop body (set \<^verbatim>\<open>0x80\<close> for a bit that is 1, then move right by one) after
  each; but the result is not the one claimed. When the first bit received is 1 and the
  others are 0, the routine returns 0; when the second bit received is the only 1, it
  returns 1.
\<close>

theorem readbyte_first_bit_lost:
  "onewire0_readbyte s irqs =
     (case readbits 8 (starttimer s) irqs of
        None \<Rightarrow> None
      | Some (rs, s', irqs') \<Rightarrow> Some (foldl shift_in 0 rs, s', irqs'))
   \<and> map_option fst (onewire0_readbyte s (loopback [1, 0, 0, 0, 0, 0, 0, 0])) = Some 0
   \<and> map_option fst (onewire0_readbyte s (loopback [0, 1, 0, 0, 0, 0, 0, 0])) = Some 1"
proof -
  have "map_option fst (onewire0_readbyte s (loopback [1, 0, 0, 0, 0, 0, 0, 0])) = Some 0"
    by (simp add: readbyte_loopback shift_in_def)
  moreover have "map_option fst (onewire0_readbyte s (loopback [0, 1, 0, 0, 0, 0, 0, 0])) = Some 1"
    by (simp add: readbyte_loopback shift_in_def)
  ultimately show ?thesis
    using readbyte_readbits [of s irqs] by simp
qed

end
